theory Spec2Isabelle
  imports Main
begin

section \<open>The remote job service as seen by \<open>gumloopUtil.js\<close>\<close>

text \<open>
  The module talks to the outside through three things only: \<open>fetch\<close> (node-fetch),
  \<open>Date.now()\<close> and \<open>setTimeout\<close>.  They are modelled by an explicit world that is
  passed through every function: a millisecond clock, a script of the answers the
  remote service will give (indexed by the number of calls of that kind made so far),
  the time each network call and each timer takes, and a trace of the effects performed,
  each stamped with the clock reading at which it was issued.  Console output is not
  modelled.
\<close>

text \<open>What \<open>response.json()\<close> yields: a parse failure, or the parsed object.\<close>

datatype 'a response_body = Malformed | Json 'a

text \<open>
  What \<open>await fetch(...)\<close> yields: the promise rejects (transport failure), or it
  resolves to a response with its \<open>ok\<close> flag, its \<open>status\<close> and its body.
\<close>

datatype 'a fetch_outcome = Rejected | Response bool nat "'a response_body"

text \<open>
  The object parsed from the body of \<open>get_pl_run\<close>, a run status.  \<open>state\<close> is \<open>None\<close>
  when the property is absent (JavaScript \<open>undefined\<close>) or is not a string: the loop
  compares it with string literals by \<open>===\<close> and \<open>includes\<close> only.  The rest of the
  payload is opaque.  A body that parses to something other than an object is outside
  this type.
\<close>

record run_details =
  state :: "string option"
  outputs :: string

text \<open>The object parsed from the body of \<open>start_pipeline\<close>.\<close>

record start_details =
  run_id :: "string option"
  start_payload :: string

text \<open>
  The exceptions of the module, as values.  The source throws plain \<open>Error\<close> objects
  and lets the rejections of \<open>fetch\<close> and \<open>response.json()\<close> propagate:
  \<^item> \<open>TransportError\<close>: the promise of \<open>fetch\<close> rejected;
  \<^item> \<open>HttpError s\<close>: \<open>Error("HTTP error! status: s")\<close>;
  \<^item> \<open>InvalidJson\<close>: the promise of \<open>response.json()\<close> rejected;
  \<^item> \<open>FlowFailed s\<close>: \<open>Error("Flow failed with state: s")\<close>;
  \<^item> \<open>PollingTimeout\<close>: \<open>Error("Polling timeout exceeded")\<close>.
\<close>

datatype error =
    TransportError
  | HttpError nat
  | InvalidJson
  | FlowFailed string
  | PollingTimeout

text \<open>The arguments shared by every function of the module.\<close>

record credentials =
  authToken :: string
  userId :: "string option"
  projectId :: "string option"

text \<open>The JSON body of the \<open>start_pipeline\<close> request.\<close>

record start_body =
  user_id :: "string option"
  saved_item_id :: "string option"
  project_id :: "string option"
  pipeline_inputs :: "(string \<times> string) list"

text \<open>
  The effects: a POST to \<open>start_pipeline\<close> (bearer token, body), a GET of
  \<open>get_pl_run\<close> (bearer token, query parameters), a timer set for some milliseconds.
\<close>

datatype event =
    StartPipeline string start_body
  | GetPlRun string "(string \<times> string) list"
  | SetTimeout nat

fun is_StartPipeline :: "event \<Rightarrow> bool" where
  "is_StartPipeline (StartPipeline _ _) = True"
| "is_StartPipeline _ = False"

fun is_GetPlRun :: "event \<Rightarrow> bool" where
  "is_GetPlRun (GetPlRun _ _) = True"
| "is_GetPlRun _ = False"

fun is_SetTimeout :: "event \<Rightarrow> bool" where
  "is_SetTimeout (SetTimeout _) = True"
| "is_SetTimeout _ = False"

text \<open>
  The world.  \<open>clock\<close> is what \<open>Date.now()\<close> reads, in milliseconds; it only moves
  forward, by the duration of a network call (\<open>start_latency\<close>, \<open>run_latency\<close>) or of a
  timer (its delay plus \<open>timer_overshoot\<close>).  The \<open>n\<close>-th launch is answered by
  \<open>start_script n\<close>, the \<open>n\<close>-th status request by \<open>run_script n\<close>, counting from 0.
\<close>

record world =
  clock :: int
  start_script :: "nat \<Rightarrow> start_details fetch_outcome"
  start_latency :: "nat \<Rightarrow> nat"
  run_script :: "nat \<Rightarrow> run_details fetch_outcome"
  run_latency :: "nat \<Rightarrow> nat"
  timer_overshoot :: "nat \<Rightarrow> nat"
  trace :: "(int \<times> event) list"

definition launches :: "world \<Rightarrow> nat" where
  "launches w = length (filter (\<lambda>(t, ev). is_StartPipeline ev) (trace w))"

definition fetches :: "world \<Rightarrow> nat" where
  "fetches w = length (filter (\<lambda>(t, ev). is_GetPlRun ev) (trace w))"

definition timers :: "world \<Rightarrow> nat" where
  "timers w = length (filter (\<lambda>(t, ev). is_SetTimeout ev) (trace w))"

text \<open>
  The delay a timer of Node really waits for.  \<open>pollFlowRunUntilComplete\<close> hands
  \<open>pollingIntervalMs\<close> to \<open>setTimeout\<close> unchecked, and Node replaces a delay below 1 or
  above \<open>2^31 - 1\<close> milliseconds by 1 millisecond.
\<close>

definition timer_delay :: "nat \<Rightarrow> nat" where
  "timer_delay ms = (if int ms < 1 \<or> 2147483647 < int ms then 1 else ms)"

text \<open>
  \<open>setTimeout(resolve, ms)\<close> awaited: the clock moves on by the delay the timer waits
  for, plus whatever the timer overshoots by.  The trace keeps the delay asked for.
\<close>

definition setTimeout :: "nat \<Rightarrow> world \<Rightarrow> world" where
  "setTimeout ms w =
     w\<lparr>clock := clock w + int (timer_delay ms) + int (timer_overshoot w (timers w)),
       trace := trace w @ [(clock w, SetTimeout ms)]\<rparr>"

section \<open>The functions of \<open>gumloopUtil.js\<close>\<close>

text \<open>String conversion of a value that may be \<open>undefined\<close>.\<close>

fun js_string :: "string option \<Rightarrow> string" where
  "js_string None = ''undefined''"
| "js_string (Some s) = s"

text \<open>Truthiness of a value that is a string, \<open>null\<close> or \<open>undefined\<close>.\<close>

fun truthy :: "string option \<Rightarrow> bool" where
  "truthy None = False"
| "truthy (Some s) = (s \<noteq> [])"

text \<open>The \<open>URLSearchParams\<close> built by \<open>getFlowRunDetails\<close>.\<close>

definition search_params :: "credentials \<Rightarrow> string option \<Rightarrow> (string \<times> string) list" where
  "search_params c runId =
     [(''run_id'', js_string runId)]
     @ (if truthy (userId c) then [(''user_id'', js_string (userId c))] else [])
     @ (if truthy (projectId c) then [(''project_id'', js_string (projectId c))] else [])"

definition getFlowRunDetails ::
  "credentials \<Rightarrow> string option \<Rightarrow> world \<Rightarrow> (error + run_details) \<times> world" where
  "getFlowRunDetails c runId w =
     (let w1 = w\<lparr>clock := clock w + int (run_latency w (fetches w)),
                  trace := trace w @ [(clock w, GetPlRun (authToken c) (search_params c runId))]\<rparr>
      in case run_script w (fetches w) of
           Rejected \<Rightarrow> (Inl TransportError, w1)
         | Response ok status body \<Rightarrow>
             if \<not> ok then (Inl (HttpError status), w1)
             else (case body of
                     Malformed \<Rightarrow> (Inl InvalidJson, w1)
                   | Json runDetails \<Rightarrow> (Inr runDetails, w1)))"

text \<open>The optional arguments of the poller and their defaults.\<close>

record poll_config =
  pollingIntervalMs :: "nat option"
  timeoutMs :: "int option"

definition interval_of :: "poll_config \<Rightarrow> nat" where
  "interval_of cfg = (case pollingIntervalMs cfg of None \<Rightarrow> 2000 | Some ms \<Rightarrow> ms)"

definition timeout_of :: "poll_config \<Rightarrow> int" where
  "timeout_of cfg = (case timeoutMs cfg of None \<Rightarrow> 300000 | Some ms \<Rightarrow> ms)"

text \<open>
  The \<open>while (true)\<close> loop of \<open>pollFlowRunUntilComplete\<close>.  It may run forever, so
  its result is an option: \<open>None\<close> is a call that never returns.
\<close>

partial_function (option) poll_loop ::
  "credentials \<Rightarrow> string option \<Rightarrow> nat \<Rightarrow> int \<Rightarrow> int \<Rightarrow> world
     \<Rightarrow> ((error + run_details) \<times> world) option" where
  "poll_loop c runId interval timeout startTime w =
     (case getFlowRunDetails c runId w of
        (Inl e, w1) \<Rightarrow> Some (Inl e, w1)
      | (Inr runDetails, w1) \<Rightarrow>
          if state runDetails = Some ''DONE'' then Some (Inr runDetails, w1)
          else if state runDetails \<in> set [Some ''FAILED'', Some ''TERMINATED'']
            then Some (Inl (FlowFailed (js_string (state runDetails))), w1)
          else if clock w1 - startTime > timeout then Some (Inl PollingTimeout, w1)
          else poll_loop c runId interval timeout startTime (setTimeout interval w1))"

definition pollFlowRunUntilComplete ::
  "credentials \<Rightarrow> string option \<Rightarrow> poll_config \<Rightarrow> world
     \<Rightarrow> ((error + run_details) \<times> world) option" where
  "pollFlowRunUntilComplete c runId cfg w =
     poll_loop c runId (interval_of cfg) (timeout_of cfg) (clock w) w"

definition startGumloopFlow ::
  "credentials \<Rightarrow> string option \<Rightarrow> (string \<times> string) list \<Rightarrow> world
     \<Rightarrow> (error + start_details) \<times> world" where
  "startGumloopFlow c savedItemId pipelineInputs w =
     (let w1 = w\<lparr>clock := clock w + int (start_latency w (launches w)),
                  trace := trace w @ [(clock w, StartPipeline (authToken c)
                    \<lparr>user_id = userId c, saved_item_id = savedItemId,
                     project_id = projectId c, pipeline_inputs = pipelineInputs\<rparr>)]\<rparr>
      in case start_script w (launches w) of
           Rejected \<Rightarrow> (Inl TransportError, w1)
         | Response ok status body \<Rightarrow>
             if \<not> ok then (Inl (HttpError status), w1)
             else (case body of
                     Malformed \<Rightarrow> (Inl InvalidJson, w1)
                   | Json flowStart \<Rightarrow> (Inr flowStart, w1)))"

text \<open>The value \<open>{ startDetails, finalResult }\<close> returned by \<open>startAndWaitForFlow\<close>.\<close>

record flow_result =
  startDetails :: start_details
  finalResult :: run_details

text \<open>
  \<open>startAndWaitForFlow\<close>: the \<open>catch\<close> block logs the error and throws it again, so
  every error comes out unchanged.
\<close>

definition startAndWaitForFlow ::
  "credentials \<Rightarrow> string option \<Rightarrow> (string \<times> string) list \<Rightarrow> poll_config \<Rightarrow> world
     \<Rightarrow> ((error + flow_result) \<times> world) option" where
  "startAndWaitForFlow c savedItemId pipelineInputs cfg w =
     (case startGumloopFlow c savedItemId pipelineInputs w of
        (Inl e, w1) \<Rightarrow> Some (Inl e, w1)
      | (Inr flowStart, w1) \<Rightarrow>
          (case pollFlowRunUntilComplete c (run_id flowStart)
                  \<lparr>pollingIntervalMs = Some (interval_of cfg),
                   timeoutMs = Some (timeout_of cfg)\<rparr> w1 of
             None \<Rightarrow> None
           | Some (Inl e, w2) \<Rightarrow> Some (Inl e, w2)
           | Some (Inr final, w2) \<Rightarrow>
               Some (Inr \<lparr>startDetails = flowStart, finalResult = final\<rparr>, w2)))"

declare poll_loop.simps [code]

section \<open>Vocabulary of the properties\<close>

text \<open>
  A scripted answer that lets the poller go on: the call succeeds and the state is none
  of the three the loop reacts to.
\<close>

definition non_terminal :: "run_details fetch_outcome \<Rightarrow> bool" where
  "non_terminal r =
     (case r of
        Response ok status (Json d) \<Rightarrow>
          ok \<and> state d \<noteq> Some ''DONE'' \<and> state d \<noteq> Some ''FAILED''
             \<and> state d \<noteq> Some ''TERMINATED''
      | _ \<Rightarrow> False)"

text \<open>
  The shape of the effects of one call of the poller: a fetch, then timer and fetch
  in turns, ending with a fetch.
\<close>

fun poll_trace :: "(int \<times> event) list \<Rightarrow> bool" where
  "poll_trace [] = False"
| "poll_trace [(t, ev)] = is_GetPlRun ev"
| "poll_trace ((t, ev) # (t', ev') # rest) =
     (is_GetPlRun ev \<and> is_SetTimeout ev' \<and> poll_trace rest)"

text \<open>
  What a test observes of a call started in world \<open>w\<close>: the outcome, the milliseconds
  elapsed, and the number of status fetches made.
\<close>

definition observe ::
  "world \<Rightarrow> ((error + 'a) \<times> world) option \<Rightarrow> ((error + 'a) \<times> int \<times> nat) option" where
  "observe w res = map_option (\<lambda>(r, w'). (r, clock w' - clock w, fetches w' - fetches w)) res"

section \<open>Concrete inputs\<close>

definition key :: credentials where
  "key = \<lparr>authToken = ''key'', userId = Some ''user-1'', projectId = None\<rparr>"

definition status_of :: "string \<Rightarrow> run_details" where
  "status_of s = \<lparr>state = Some s, outputs = []\<rparr>"

definition answer :: "string \<Rightarrow> run_details fetch_outcome" where
  "answer s = Response True 200 (Json (status_of s))"

text \<open>A script given by a list; the service is unreachable once the list is used up.\<close>

definition script_of :: "'a fetch_outcome list \<Rightarrow> nat \<Rightarrow> 'a fetch_outcome" where
  "script_of xs n = (if n < length xs then xs ! n else Rejected)"

definition always :: "string \<Rightarrow> nat \<Rightarrow> run_details fetch_outcome" where
  "always s = (\<lambda>n. answer s)"

text \<open>
  A mocked service: the launch answers with run id \<open>run-1\<close>, every network call takes
  \<open>lat\<close> milliseconds, timers are exact, and the clock starts at 1000.
\<close>

definition mock :: "(nat \<Rightarrow> run_details fetch_outcome) \<Rightarrow> nat \<Rightarrow> world" where
  "mock script lat =
     \<lparr>clock = 1000,
      start_script = (\<lambda>n. Response True 200 (Json \<lparr>run_id = Some ''run-1'', start_payload = []\<rparr>)),
      start_latency = (\<lambda>n. lat),
      run_script = script,
      run_latency = (\<lambda>n. lat),
      timer_overshoot = (\<lambda>n. 0),
      trace = []\<rparr>"

text \<open>The same service with another answer to the launch.\<close>

definition with_launch :: "start_details fetch_outcome \<Rightarrow> world \<Rightarrow> world" where
  "with_launch answer_of_launch w = w\<lparr>start_script := (\<lambda>n. answer_of_launch)\<rparr>"

definition config :: "nat \<Rightarrow> int \<Rightarrow> poll_config" where
  "config interval timeout = \<lparr>pollingIntervalMs = Some interval, timeoutMs = Some timeout\<rparr>"

section \<open>Effects of one network call and of one timer\<close>

lemma getFlowRunDetails_world:
  "getFlowRunDetails c runId w = (r, w1) \<Longrightarrow>
     w1 = w\<lparr>clock := clock w + int (run_latency w (fetches w)),
            trace := trace w @ [(clock w, GetPlRun (authToken c) (search_params c runId))]\<rparr>"
  by (auto simp: getFlowRunDetails_def Let_def
           split: fetch_outcome.splits response_body.splits if_splits)

lemma getFlowRunDetails_error:
  "getFlowRunDetails c runId w = (Inl e, w1) \<Longrightarrow>
     e = TransportError \<or> e = InvalidJson \<or> (\<exists>s. e = HttpError s)"
  by (auto simp: getFlowRunDetails_def Let_def
           split: fetch_outcome.splits response_body.splits if_splits)

lemma getFlowRunDetails_effect:
  assumes "getFlowRunDetails c runId w = (r, w1)"
  shows "clock w1 = clock w + int (run_latency w (fetches w))"
    and "fetches w1 = fetches w + 1"
    and "timers w1 = timers w"
    and "launches w1 = launches w"
    and "trace w1 = trace w @ [(clock w, GetPlRun (authToken c) (search_params c runId))]"
    and "run_script w1 = run_script w"
    and "run_latency w1 = run_latency w"
    and "timer_overshoot w1 = timer_overshoot w"
  using getFlowRunDetails_world [OF assms]
  by (simp_all add: fetches_def timers_def launches_def)

lemma timer_delay_pos: "0 < timer_delay ms"
  by (simp add: timer_delay_def)

lemma timer_delay_in_range: "0 < ms \<Longrightarrow> ms \<le> 2147483647 \<Longrightarrow> timer_delay ms = ms"
  by (simp add: timer_delay_def)

lemma setTimeout_effect:
  shows "clock (setTimeout ms w)
           = clock w + int (timer_delay ms) + int (timer_overshoot w (timers w))"
    and "fetches (setTimeout ms w) = fetches w"
    and "timers (setTimeout ms w) = timers w + 1"
    and "launches (setTimeout ms w) = launches w"
    and "trace (setTimeout ms w) = trace w @ [(clock w, SetTimeout ms)]"
    and "run_script (setTimeout ms w) = run_script w"
    and "run_latency (setTimeout ms w) = run_latency w"
    and "timer_overshoot (setTimeout ms w) = timer_overshoot w"
  by (simp_all add: setTimeout_def fetches_def timers_def launches_def)

lemma getFlowRunDetails_answer:
  assumes "non_terminal (run_script w (fetches w))"
  shows "\<exists>d w1. getFlowRunDetails c runId w = (Inr d, w1) \<and> state d \<noteq> Some ''DONE''
           \<and> state d \<noteq> Some ''FAILED'' \<and> state d \<noteq> Some ''TERMINATED''"
  using assms
  by (auto simp: getFlowRunDetails_def non_terminal_def Let_def
           split: fetch_outcome.splits response_body.splits)

lemma startGumloopFlow_world:
  "startGumloopFlow c savedItemId pipelineInputs w = (r, w1) \<Longrightarrow>
     w1 = w\<lparr>clock := clock w + int (start_latency w (launches w)),
            trace := trace w @ [(clock w, StartPipeline (authToken c)
              \<lparr>user_id = userId c, saved_item_id = savedItemId,
               project_id = projectId c, pipeline_inputs = pipelineInputs\<rparr>)]\<rparr>"
  by (auto simp: startGumloopFlow_def Let_def
           split: fetch_outcome.splits response_body.splits if_splits)

lemma startGumloopFlow_effect:
  assumes "startGumloopFlow c savedItemId pipelineInputs w = (r, w1)"
  shows "launches w1 = launches w + 1"
    and "fetches w1 = fetches w"
    and "timers w1 = timers w"
    and "trace w1 = trace w @ [(clock w, StartPipeline (authToken c)
              \<lparr>user_id = userId c, saved_item_id = savedItemId,
               project_id = projectId c, pipeline_inputs = pipelineInputs\<rparr>)]"
  using startGumloopFlow_world [OF assms]
  by (simp_all add: fetches_def timers_def launches_def)

section \<open>One turn of the loop, and an induction rule for calls that return\<close>

lemma poll_loop_unfold_error:
  "getFlowRunDetails c runId w = (Inl e, w1) \<Longrightarrow>
     poll_loop c runId interval timeout startTime w = Some (Inl e, w1)"
  by (subst poll_loop.simps) simp

lemma poll_loop_unfold_done:
  "getFlowRunDetails c runId w = (Inr d, w1) \<Longrightarrow> state d = Some ''DONE'' \<Longrightarrow>
     poll_loop c runId interval timeout startTime w = Some (Inr d, w1)"
  by (subst poll_loop.simps) simp

lemma poll_loop_unfold_failed:
  "getFlowRunDetails c runId w = (Inr d, w1) \<Longrightarrow>
     state d = Some ''FAILED'' \<or> state d = Some ''TERMINATED'' \<Longrightarrow>
     poll_loop c runId interval timeout startTime w
       = Some (Inl (FlowFailed (js_string (state d))), w1)"
  by (subst poll_loop.simps) auto

lemma poll_loop_unfold_timeout:
  "getFlowRunDetails c runId w = (Inr d, w1) \<Longrightarrow>
     state d \<noteq> Some ''DONE'' \<Longrightarrow> state d \<noteq> Some ''FAILED'' \<Longrightarrow>
     state d \<noteq> Some ''TERMINATED'' \<Longrightarrow> timeout < clock w1 - startTime \<Longrightarrow>
     poll_loop c runId interval timeout startTime w = Some (Inl PollingTimeout, w1)"
  by (subst poll_loop.simps) simp

lemma poll_loop_unfold_continue:
  "getFlowRunDetails c runId w = (Inr d, w1) \<Longrightarrow>
     state d \<noteq> Some ''DONE'' \<Longrightarrow> state d \<noteq> Some ''FAILED'' \<Longrightarrow>
     state d \<noteq> Some ''TERMINATED'' \<Longrightarrow> \<not> timeout < clock w1 - startTime \<Longrightarrow>
     poll_loop c runId interval timeout startTime w
       = poll_loop c runId interval timeout startTime (setTimeout interval w1)"
  by (subst poll_loop.simps) simp

text \<open>
  Whatever holds of each way the loop body can end, and is passed on by a turn that
  goes round again, holds of every call that returns.
\<close>

lemma poll_loop_induct [consumes 1, case_names failure finished failed timed_out continue]:
  assumes ret: "poll_loop c runId interval timeout startTime w = Some res"
    and err: "\<And>w e w1. getFlowRunDetails c runId w = (Inl e, w1) \<Longrightarrow> P w (Inl e, w1)"
    and don: "\<And>w d w1. getFlowRunDetails c runId w = (Inr d, w1) \<Longrightarrow>
                state d = Some ''DONE'' \<Longrightarrow> P w (Inr d, w1)"
    and fai: "\<And>w d w1. getFlowRunDetails c runId w = (Inr d, w1) \<Longrightarrow>
                state d = Some ''FAILED'' \<or> state d = Some ''TERMINATED'' \<Longrightarrow>
                P w (Inl (FlowFailed (js_string (state d))), w1)"
    and tim: "\<And>w d w1. getFlowRunDetails c runId w = (Inr d, w1) \<Longrightarrow>
                state d \<noteq> Some ''DONE'' \<Longrightarrow> state d \<noteq> Some ''FAILED'' \<Longrightarrow>
                state d \<noteq> Some ''TERMINATED'' \<Longrightarrow> timeout < clock w1 - startTime \<Longrightarrow>
                P w (Inl PollingTimeout, w1)"
    and con: "\<And>w d w1 res. getFlowRunDetails c runId w = (Inr d, w1) \<Longrightarrow>
                state d \<noteq> Some ''DONE'' \<Longrightarrow> state d \<noteq> Some ''FAILED'' \<Longrightarrow>
                state d \<noteq> Some ''TERMINATED'' \<Longrightarrow> \<not> timeout < clock w1 - startTime \<Longrightarrow>
                poll_loop c runId interval timeout startTime (setTimeout interval w1) = Some res \<Longrightarrow>
                P (setTimeout interval w1) res \<Longrightarrow> P w res"
  shows "P w res"
proof -
  let ?Q = "\<lambda>c' r' i' t' s' w res.
     c' = c \<and> r' = runId \<and> i' = interval \<and> t' = timeout \<and> s' = startTime \<longrightarrow>
       poll_loop c runId interval timeout startTime w = Some res \<and> P w res"
  have "?Q c runId interval timeout startTime w res"
    apply (rule poll_loop.raw_induct [where P = ?Q, OF _ ret])
    subgoal premises prems for loop c' r' i' t' s' w res
    proof (intro impI)
      assume eq: "c' = c \<and> r' = runId \<and> i' = interval \<and> t' = timeout \<and> s' = startTime"
      obtain r w1 where f: "getFlowRunDetails c runId w = (r, w1)"
        by (cases "getFlowRunDetails c runId w")
      show "poll_loop c runId interval timeout startTime w = Some res \<and> P w res"
      proof (cases r)
        case (Inl e)
        with prems(2) eq f have "res = (Inl e, w1)" by auto
        with f Inl err poll_loop_unfold_error show ?thesis by simp
      next
        case (Inr d)
        note f' = f [unfolded Inr]
        consider (a) "state d = Some ''DONE''"
          | (b) "state d = Some ''FAILED'' \<or> state d = Some ''TERMINATED''"
          | (c) "state d \<noteq> Some ''DONE''" "state d \<noteq> Some ''FAILED''"
                "state d \<noteq> Some ''TERMINATED''" "timeout < clock w1 - startTime"
          | (d) "state d \<noteq> Some ''DONE''" "state d \<noteq> Some ''FAILED''"
                "state d \<noteq> Some ''TERMINATED''" "\<not> timeout < clock w1 - startTime"
          by blast
        then show ?thesis
        proof cases
          case a
          with prems(2) eq f' have "res = (Inr d, w1)" by auto
          with f' a don poll_loop_unfold_done show ?thesis by simp
        next
          case b
          with prems(2) eq f' have "res = (Inl (FlowFailed (js_string (state d))), w1)" by auto
          with f' b fai poll_loop_unfold_failed show ?thesis by simp
        next
          case c
          with prems(2) eq f' have "res = (Inl PollingTimeout, w1)" by auto
          with f' c tim poll_loop_unfold_timeout show ?thesis by simp
        next
          case d
          with prems(2) eq f'
          have "loop c runId interval timeout startTime (setTimeout interval w1) = Some res"
            by auto
          from prems(1) [OF this]
          have ih: "poll_loop c runId interval timeout startTime (setTimeout interval w1) = Some res"
               "P (setTimeout interval w1) res" by auto
          from con [OF f' d ih] ih(1) poll_loop_unfold_continue [OF f' d]
          show ?thesis by simp
        qed
      qed
    qed
    done
  then show ?thesis by simp
qed

section \<open>The loop returns, and how much it does before\<close>

text \<open>A timer lasts at least a millisecond, so the deadline is reached in the end.\<close>

lemma poll_loop_returns:
  "\<exists>res. poll_loop c runId interval timeout startTime w = Some res"
proof (induction "nat (timeout + 1 - (clock w - startTime))" arbitrary: w rule: less_induct)
  case less
  obtain r w1 where f: "getFlowRunDetails c runId w = (r, w1)"
    by (cases "getFlowRunDetails c runId w")
  show ?case
  proof (cases r)
    case (Inl e)
    with f poll_loop_unfold_error show ?thesis by blast
  next
    case (Inr d)
    note f' = f [unfolded Inr]
    consider (a) "state d = Some ''DONE''"
      | (b) "state d = Some ''FAILED'' \<or> state d = Some ''TERMINATED''"
      | (c) "state d \<noteq> Some ''DONE''" "state d \<noteq> Some ''FAILED''"
            "state d \<noteq> Some ''TERMINATED''" "timeout < clock w1 - startTime"
      | (d) "state d \<noteq> Some ''DONE''" "state d \<noteq> Some ''FAILED''"
            "state d \<noteq> Some ''TERMINATED''" "\<not> timeout < clock w1 - startTime"
      by blast
    then show ?thesis
    proof cases
      case a
      with f' poll_loop_unfold_done show ?thesis by blast
    next
      case b
      with f' poll_loop_unfold_failed show ?thesis by blast
    next
      case c
      with f' poll_loop_unfold_timeout show ?thesis by blast
    next
      case d
      have "nat (timeout + 1 - (clock (setTimeout interval w1) - startTime))
              < nat (timeout + 1 - (clock w - startTime))"
        using d(4) timer_delay_pos [of interval] getFlowRunDetails_effect(1) [OF f']
          setTimeout_effect(1) [of interval w1]
        by linarith
      from less [OF this] poll_loop_unfold_continue [OF f' d]
      show ?thesis by simp
    qed
  qed
qed

lemma poll_loop_safe:
  assumes "poll_loop c runId interval timeout startTime w = Some res"
  shows "case fst res of
           Inr d \<Rightarrow> state d = Some ''DONE''
         | Inl e \<Rightarrow> e = FlowFailed ''FAILED'' \<or> e = FlowFailed ''TERMINATED''
                    \<or> e = PollingTimeout \<or> e = TransportError \<or> e = InvalidJson
                    \<or> (\<exists>s. e = HttpError s)"
  using assms
proof (induction rule: poll_loop_induct)
  case (failure w e w1)
  from getFlowRunDetails_error [OF this] show ?case by auto
next
  case (failed w d w1)
  then show ?case by auto
qed simp_all

lemma poll_loop_fetches_lower:
  assumes "poll_loop c runId interval timeout startTime w = Some res"
  shows "fetches w + 1 \<le> fetches (snd res)"
  using assms
proof (induction rule: poll_loop_induct)
  case (continue w d w1 res)
  then show ?case
    using getFlowRunDetails_effect(2) [OF continue(1)] setTimeout_effect(2) [of interval w1]
    by simp
qed (simp_all add: getFlowRunDetails_effect)

lemma poll_loop_timeout_elapsed:
  assumes "poll_loop c runId interval timeout startTime w = Some res"
    and "fst res = Inl PollingTimeout"
  shows "timeout < clock (snd res) - startTime"
  using assms
proof (induction rule: poll_loop_induct)
  case (failure w e w1)
  then show ?case using getFlowRunDetails_error by fastforce
qed simp_all

lemma fetch_budget_step:
  fixes timeout e e2 :: int and interval :: nat
  assumes "0 < interval" "e \<le> timeout" "e + int interval \<le> e2"
  shows "nat ((timeout - e2) div int interval + 1) + 1 \<le> nat ((timeout - e) div int interval + 1)"
proof -
  have "(timeout - e2) div int interval \<le> (timeout - e - int interval) div int interval"
    using assms by (intro zdiv_mono1) auto
  also have "\<dots> = (timeout - e) div int interval - 1"
    using assms(1) div_add_self2 [of "int interval" "timeout - e - int interval"] by simp
  finally have a: "(timeout - e2) div int interval + 1 \<le> (timeout - e) div int interval" by simp
  have "0 \<le> (timeout - e) div int interval"
    using assms by (simp add: pos_imp_zdiv_nonneg_iff)
  with a show ?thesis by linarith
qed

lemma poll_loop_fetches_upper:
  assumes "poll_loop c runId interval timeout startTime w = Some res"
  shows "fetches (snd res)
           \<le> fetches w
               + nat ((timeout - (clock w - startTime)) div int (timer_delay interval) + 1) + 1"
  using assms(1)
proof (induction rule: poll_loop_induct)
  case (continue w d w1 res)
  have e: "clock w - startTime \<le> timeout"
    using continue(5) getFlowRunDetails_effect(1) [OF continue(1)] by linarith
  have e2: "clock w - startTime + int (timer_delay interval)
              \<le> clock (setTimeout interval w1) - startTime"
    using getFlowRunDetails_effect(1) [OF continue(1)] setTimeout_effect(1) [of interval w1]
    by linarith
  from fetch_budget_step [OF timer_delay_pos e e2] continue(7)
  show ?case
    using getFlowRunDetails_effect(2) [OF continue(1)] setTimeout_effect(2) [of interval w1]
    by linarith
qed (simp_all add: getFlowRunDetails_effect)

lemma poll_loop_elapsed_upper:
  assumes "poll_loop c runId interval timeout startTime w = Some res"
    and "\<forall>n. run_latency w n \<le> L"
    and "\<forall>n. timer_overshoot w n \<le> J"
  shows "clock (snd res) - startTime
           \<le> max (clock w - startTime) (timeout + int (timer_delay interval) + int J) + int L"
  using assms
proof (induction rule: poll_loop_induct)
  case (continue w d w1 res)
  let ?w2 = "setTimeout interval w1"
  have lat: "\<forall>n. run_latency ?w2 n \<le> L" and ov: "\<forall>n. timer_overshoot ?w2 n \<le> J"
    using continue(8,9) getFlowRunDetails_effect(7,8) [OF continue(1)]
    by (simp_all add: setTimeout_effect)
  have "int (timer_overshoot w1 (timers w1)) \<le> int J"
    using continue(9) getFlowRunDetails_effect(8) [OF continue(1)] by simp
  then have "clock ?w2 - startTime \<le> timeout + int (timer_delay interval) + int J"
    using continue(5) setTimeout_effect(1) [of interval w1] by linarith
  with continue(7) [OF lat ov] show ?case by linarith
next
  case (failure w e w1)
  have "int (run_latency w (fetches w)) \<le> int L" using failure(2) by simp
  then show ?case using getFlowRunDetails_effect(1) [OF failure(1)] by simp
next
  case (finished w d w1)
  have "int (run_latency w (fetches w)) \<le> int L" using finished(3) by simp
  then show ?case using getFlowRunDetails_effect(1) [OF finished(1)] by simp
next
  case (failed w d w1)
  have "int (run_latency w (fetches w)) \<le> int L" using failed(3) by simp
  then show ?case using getFlowRunDetails_effect(1) [OF failed(1)] by simp
next
  case (timed_out w d w1)
  have "int (run_latency w (fetches w)) \<le> int L" using timed_out(6) by simp
  then show ?case using getFlowRunDetails_effect(1) [OF timed_out(1)] by simp
qed

lemma poll_loop_never_terminal:
  assumes "poll_loop c runId interval timeout startTime w = Some res"
    and "\<forall>n. non_terminal (run_script w n)"
  shows "fst res = Inl PollingTimeout"
  using assms
proof (induction rule: poll_loop_induct)
  case (continue w d w1 res)
  then show ?case
    using getFlowRunDetails_effect(6) [OF continue(1)] by (simp add: setTimeout_effect)
next
  case (failure w e w1)
  with getFlowRunDetails_answer [of w c runId] show ?case by auto
next
  case (finished w d w1)
  with getFlowRunDetails_answer [of w c runId] show ?case by auto
next
  case (failed w d w1)
  with getFlowRunDetails_answer [of w c runId] show ?case by auto
qed simp

text \<open>The effects of a call that returns, in the order they were performed.\<close>

lemma poll_loop_trace:
  assumes "poll_loop c runId interval timeout startTime w = Some res"
  shows "\<exists>evs. trace (snd res) = trace w @ evs \<and> poll_trace evs
           \<and> (\<forall>(t, ev) \<in> set evs.
                 ev = GetPlRun (authToken c) (search_params c runId)
                 \<or> ev = SetTimeout interval \<and> t - startTime \<le> timeout)"
  using assms
proof (induction rule: poll_loop_induct)
  case (continue w d w1 res)
  then obtain evs where evs: "trace (snd res) = trace (setTimeout interval w1) @ evs"
      "poll_trace evs"
      "\<forall>(t, ev) \<in> set evs. ev = GetPlRun (authToken c) (search_params c runId)
                 \<or> ev = SetTimeout interval \<and> t - startTime \<le> timeout"
    by blast
  let ?evs = "(clock w, GetPlRun (authToken c) (search_params c runId))
                # (clock w1, SetTimeout interval) # evs"
  have "trace (snd res) = trace w @ ?evs"
    using evs(1) getFlowRunDetails_effect(5) [OF continue(1)] by (simp add: setTimeout_effect)
  moreover have "poll_trace ?evs" using evs(2) by simp
  moreover have "\<forall>(t, ev) \<in> set ?evs. ev = GetPlRun (authToken c) (search_params c runId)
                 \<or> ev = SetTimeout interval \<and> t - startTime \<le> timeout"
    using evs(3) continue(5) by auto
  ultimately show ?case by blast
qed (auto simp: getFlowRunDetails_effect)

section \<open>Claims about the poller\<close>

text \<open>
  Claim C1.  Whatever the service answers, a call of \<open>pollFlowRunUntilComplete\<close> that
  returns a status returns one whose state is \<open>DONE\<close>; every other way out is an
  error: the flow failed (state \<open>FAILED\<close> or \<open>TERMINATED\<close>), the polling timed out, or
  \<open>getFlowRunDetails\<close> failed and its error came through.  With a positive polling
  interval the call does come back.
\<close>

theorem poller_returns_only_done:
  "(\<forall>r w'. pollFlowRunUntilComplete c runId cfg w = Some (r, w') \<longrightarrow>
      (case r of
         Inr d \<Rightarrow> state d = Some ''DONE''
       | Inl e \<Rightarrow> e = FlowFailed ''FAILED'' \<or> e = FlowFailed ''TERMINATED''
                  \<or> e = PollingTimeout \<or> e = TransportError \<or> e = InvalidJson
                  \<or> (\<exists>s. e = HttpError s)))
   \<and> (0 < interval_of cfg \<longrightarrow> (\<exists>r w'. pollFlowRunUntilComplete c runId cfg w = Some (r, w')))"
proof (intro conjI allI impI)
  fix r w'
  assume "pollFlowRunUntilComplete c runId cfg w = Some (r, w')"
  then have "poll_loop c runId (interval_of cfg) (timeout_of cfg) (clock w) w = Some (r, w')"
    by (simp add: pollFlowRunUntilComplete_def)
  from poll_loop_safe [OF this]
  show "case r of
         Inr d \<Rightarrow> state d = Some ''DONE''
       | Inl e \<Rightarrow> e = FlowFailed ''FAILED'' \<or> e = FlowFailed ''TERMINATED''
                  \<or> e = PollingTimeout \<or> e = TransportError \<or> e = InvalidJson
                  \<or> (\<exists>s. e = HttpError s)"
    by simp
next
  assume "0 < interval_of cfg"
  from poll_loop_returns
  show "\<exists>r w'. pollFlowRunUntilComplete c runId cfg w = Some (r, w')"
    by (simp add: pollFlowRunUntilComplete_def)
qed

theorem poller_returns_only_done_witness:
  "\<exists>d w'. pollFlowRunUntilComplete key (Some ''run-1'') (config 10 10000)
             (mock (script_of [answer ''PENDING'', answer ''RUNNING'', answer ''DONE'']) 0)
           = Some (Inr d, w') \<and> state d = Some ''DONE''"
proof -
  let ?w = "mock (script_of [answer ''PENDING'', answer ''RUNNING'', answer ''DONE'']) 0"
  let ?run = "pollFlowRunUntilComplete key (Some ''run-1'') (config 10 10000) ?w"
  note main = poller_returns_only_done [of key "Some ''run-1''" "config 10 10000" ?w]
  have "0 < interval_of (config 10 10000)"
    by (simp add: config_def interval_of_def)
  with main obtain r w' where run: "?run = Some (r, w')" by blast
  have "observe ?w ?run = Some (Inr (status_of ''DONE''), 20, 3)"
    by code_simp
  with run have r: "r = Inr (status_of ''DONE'')" by (simp add: observe_def)
  from main run r have "state (status_of ''DONE'') = Some ''DONE''" by auto
  with run r show ?thesis by blast
qed

text \<open>
  Claim C2.  What the loop does with a fetched status, at any turn (any world \<open>w\<close> and
  any start time): state \<open>DONE\<close> ends the call with that status; state \<open>FAILED\<close> or
  \<open>TERMINATED\<close> ends it with the flow-failed error carrying that state; any other
  state, an absent one included, ends nothing by itself: the loop goes on to its
  deadline check and, the deadline not being exceeded, to the timer and the next fetch.
\<close>

theorem fetched_state_classification:
  assumes "getFlowRunDetails c runId w = (Inr d, w1)"
  shows "(state d = Some ''DONE'' \<longrightarrow>
            poll_loop c runId interval timeout startTime w = Some (Inr d, w1))
       \<and> (\<forall>s. state d = Some s \<and> (s = ''FAILED'' \<or> s = ''TERMINATED'') \<longrightarrow>
            poll_loop c runId interval timeout startTime w = Some (Inl (FlowFailed s), w1))
       \<and> (state d \<noteq> Some ''DONE'' \<and> state d \<noteq> Some ''FAILED''
            \<and> state d \<noteq> Some ''TERMINATED'' \<longrightarrow>
            poll_loop c runId interval timeout startTime w
              = (if timeout < clock w1 - startTime then Some (Inl PollingTimeout, w1)
                 else poll_loop c runId interval timeout startTime (setTimeout interval w1)))"
proof (intro conjI allI impI)
  assume "state d = Some ''DONE''"
  with assms show "poll_loop c runId interval timeout startTime w = Some (Inr d, w1)"
    by (rule poll_loop_unfold_done)
next
  fix s
  assume s: "state d = Some s \<and> (s = ''FAILED'' \<or> s = ''TERMINATED'')"
  then have "state d = Some ''FAILED'' \<or> state d = Some ''TERMINATED''" by auto
  from poll_loop_unfold_failed [OF assms this] s
  show "poll_loop c runId interval timeout startTime w = Some (Inl (FlowFailed s), w1)"
    by simp
next
  assume other: "state d \<noteq> Some ''DONE'' \<and> state d \<noteq> Some ''FAILED''
            \<and> state d \<noteq> Some ''TERMINATED''"
  show "poll_loop c runId interval timeout startTime w
          = (if timeout < clock w1 - startTime then Some (Inl PollingTimeout, w1)
             else poll_loop c runId interval timeout startTime (setTimeout interval w1))"
  proof (cases "timeout < clock w1 - startTime")
    case True
    with other poll_loop_unfold_timeout [OF assms] show ?thesis by simp
  next
    case False
    with other poll_loop_unfold_continue [OF assms] show ?thesis by simp
  qed
qed

theorem fetched_state_classification_witness:
  "poll_loop key (Some ''run-1'') 10 50 1000 (mock (always ''DONE'') 5)
     = Some (Inr (status_of ''DONE''),
             snd (getFlowRunDetails key (Some ''run-1'') (mock (always ''DONE'') 5)))
   \<and> poll_loop key (Some ''run-1'') 10 50 1000 (mock (always ''TERMINATED'') 5)
     = Some (Inl (FlowFailed ''TERMINATED''),
             snd (getFlowRunDetails key (Some ''run-1'') (mock (always ''TERMINATED'') 5)))
   \<and> poll_loop key (Some ''run-1'') 10 50 1000 (mock (always ''QUEUED'') 5)
     = poll_loop key (Some ''run-1'') 10 50 1000
         (setTimeout 10 (snd (getFlowRunDetails key (Some ''run-1'') (mock (always ''QUEUED'') 5))))"
proof -
  have f: "getFlowRunDetails key (Some ''run-1'') (mock (always s) 5)
             = (Inr (status_of s), snd (getFlowRunDetails key (Some ''run-1'') (mock (always s) 5)))"
    for s
    by (simp add: getFlowRunDetails_def mock_def always_def answer_def Let_def)
  have clk: "clock (snd (getFlowRunDetails key (Some ''run-1'') (mock (always ''QUEUED'') 5))) = 1005"
    by (simp add: getFlowRunDetails_def mock_def always_def answer_def Let_def fetches_def)
  from fetched_state_classification [OF f [of "''DONE''"], of 10 50 1000]
       fetched_state_classification [OF f [of "''TERMINATED''"], of 10 50 1000]
       fetched_state_classification [OF f [of "''QUEUED''"], of 10 50 1000] clk
  show ?thesis
    by (simp add: status_of_def)
qed

text \<open>
  Claim C3.  Between two fetches of one call there is one comparison of the time elapsed
  since the call began with \<open>timeoutMs\<close>, made right after the earlier fetch and before
  the timer that precedes the later one.  So in the effects of a call that returns,
  fetches and timers take turns, starting and ending with a fetch, and every timer was
  set at a moment when the time elapsed did not exceed \<open>timeoutMs\<close>.  When the
  comparison finds the deadline exceeded, the call fails with the polling-timeout error
  in the world left by the earlier fetch: no timer is set and no further fetch is made.
\<close>

theorem deadline_checked_between_fetches:
  assumes "pollFlowRunUntilComplete c runId cfg w = Some (r, w')"
  shows "(\<exists>evs. trace w' = trace w @ evs \<and> poll_trace evs
            \<and> (\<forall>(t, ev) \<in> set evs. is_SetTimeout ev \<longrightarrow>
                  ev = SetTimeout (interval_of cfg) \<and> t - clock w \<le> timeout_of cfg))
       \<and> (r = Inl PollingTimeout \<longrightarrow> timeout_of cfg < clock w' - clock w)
       \<and> (\<forall>w0 d w1. getFlowRunDetails c runId w0 = (Inr d, w1)
              \<and> state d \<noteq> Some ''DONE'' \<and> state d \<noteq> Some ''FAILED''
              \<and> state d \<noteq> Some ''TERMINATED''
              \<and> timeout_of cfg < clock w1 - clock w \<longrightarrow>
              poll_loop c runId (interval_of cfg) (timeout_of cfg) (clock w) w0
                = Some (Inl PollingTimeout, w1)
              \<and> fetches w1 = fetches w0 + 1 \<and> timers w1 = timers w0)"
proof (intro conjI allI impI)
  from assms
  have run: "poll_loop c runId (interval_of cfg) (timeout_of cfg) (clock w) w = Some (r, w')"
    by (simp add: pollFlowRunUntilComplete_def)
  from poll_loop_trace [OF run]
  obtain evs where evs: "trace w' = trace w @ evs" "poll_trace evs"
      "\<forall>(t, ev) \<in> set evs. ev = GetPlRun (authToken c) (search_params c runId)
                 \<or> ev = SetTimeout (interval_of cfg) \<and> t - clock w \<le> timeout_of cfg"
    by auto
  from evs(3)
  have "\<forall>(t, ev) \<in> set evs. is_SetTimeout ev \<longrightarrow>
          ev = SetTimeout (interval_of cfg) \<and> t - clock w \<le> timeout_of cfg"
    by fastforce
  with evs(1,2)
  show "\<exists>evs. trace w' = trace w @ evs \<and> poll_trace evs
            \<and> (\<forall>(t, ev) \<in> set evs. is_SetTimeout ev \<longrightarrow>
                  ev = SetTimeout (interval_of cfg) \<and> t - clock w \<le> timeout_of cfg)"
    by blast
  {
    assume "r = Inl PollingTimeout"
    with poll_loop_timeout_elapsed [OF run]
    show "timeout_of cfg < clock w' - clock w" by simp
  }
next
  fix w0 d w1
  assume h: "getFlowRunDetails c runId w0 = (Inr d, w1)
              \<and> state d \<noteq> Some ''DONE'' \<and> state d \<noteq> Some ''FAILED''
              \<and> state d \<noteq> Some ''TERMINATED''
              \<and> timeout_of cfg < clock w1 - clock w"
  then have f: "getFlowRunDetails c runId w0 = (Inr d, w1)" by simp
  from poll_loop_unfold_timeout [OF f] h
  show "poll_loop c runId (interval_of cfg) (timeout_of cfg) (clock w) w0
          = Some (Inl PollingTimeout, w1)"
    by simp
  from getFlowRunDetails_effect(2,3) [OF f]
  show "fetches w1 = fetches w0 + 1" and "timers w1 = timers w0" by simp_all
qed

theorem deadline_checked_between_fetches_witness:
  "(\<exists>w' evs. pollFlowRunUntilComplete key (Some ''run-1'') (config 10 50)
                 (mock (always ''RUNNING'') 0) = Some (Inl PollingTimeout, w')
       \<and> trace w' = evs \<and> poll_trace evs
       \<and> (\<forall>(t, ev) \<in> set evs. is_SetTimeout ev \<longrightarrow> ev = SetTimeout 10 \<and> t - 1000 \<le> 50)
       \<and> 50 < clock w' - 1000)
   \<and> poll_loop key (Some ''run-1'') 10 50 1000 (mock (always ''RUNNING'') 60)
       = Some (Inl PollingTimeout,
               snd (getFlowRunDetails key (Some ''run-1'') (mock (always ''RUNNING'') 60)))"
proof -
  let ?w = "mock (always ''RUNNING'') 0"
  let ?late = "mock (always ''RUNNING'') 60"
  let ?run = "pollFlowRunUntilComplete key (Some ''run-1'') (config 10 50) ?w"
  have cfg: "interval_of (config 10 50) = 10" "timeout_of (config 10 50) = 50"
    by (simp_all add: config_def interval_of_def timeout_of_def)
  have w: "clock ?w = 1000" "trace ?w = []"
    by (simp_all add: mock_def)
  have obs: "observe ?w ?run = Some (Inl PollingTimeout, 60, 7)"
    by code_simp
  obtain r w' where run: "?run = Some (r, w')"
    using poll_loop_returns [of key "Some ''run-1''" 10 50 1000 ?w]
    by (auto simp: pollFlowRunUntilComplete_def cfg w)
  with obs have r: "r = Inl PollingTimeout" by (simp add: observe_def)
  note main = deadline_checked_between_fetches [OF run, unfolded cfg w]
  have f: "getFlowRunDetails key (Some ''run-1'') ?late
             = (Inr (status_of ''RUNNING''), snd (getFlowRunDetails key (Some ''run-1'') ?late))"
    by (simp add: getFlowRunDetails_def mock_def always_def answer_def Let_def)
  have clk: "clock (snd (getFlowRunDetails key (Some ''run-1'') ?late)) = 1060"
    by (simp add: getFlowRunDetails_def mock_def always_def answer_def Let_def fetches_def)
  from main have a: "\<exists>evs. trace w' = evs \<and> poll_trace evs
       \<and> (\<forall>(t, ev) \<in> set evs. is_SetTimeout ev \<longrightarrow> ev = SetTimeout 10 \<and> t - 1000 \<le> 50)"
    by simp
  from main r have b: "50 < clock w' - 1000" by simp
  from main
  have step: "getFlowRunDetails key (Some ''run-1'') w0 = (Inr d, w1) \<Longrightarrow>
      state d \<noteq> Some ''DONE'' \<Longrightarrow> state d \<noteq> Some ''FAILED'' \<Longrightarrow>
      state d \<noteq> Some ''TERMINATED'' \<Longrightarrow> 50 < clock w1 - 1000 \<Longrightarrow>
      poll_loop key (Some ''run-1'') 10 50 1000 w0 = Some (Inl PollingTimeout, w1)"
    for w0 d w1
    by blast
  from step [OF f] clk
  have c: "poll_loop key (Some ''run-1'') 10 50 1000 ?late
       = Some (Inl PollingTimeout, snd (getFlowRunDetails key (Some ''run-1'') ?late))"
    by (simp add: status_of_def)
  from run r a b c show ?thesis by simp
qed

text \<open>
  Claim C10.  Within a turn the fetched state is looked at before the deadline: whatever
  the start time and the timeout, already exceeded or not, a fetch that yields \<open>DONE\<close>
  makes the call return that status and a fetch that yields \<open>FAILED\<close> or \<open>TERMINATED\<close>
  makes it fail with the flow-failed error, never with the polling timeout.  No deadline
  keeps the first fetch from being made: every call that returns has made at least one.
  With \<open>timeoutMs = 0\<close> a first fetch yielding \<open>DONE\<close> is a success.
\<close>

theorem terminal_state_before_deadline:
  assumes "getFlowRunDetails c runId w = (Inr d, w1)"
  shows "(state d = Some ''DONE'' \<longrightarrow>
            poll_loop c runId interval timeout startTime w = Some (Inr d, w1))
       \<and> (state d = Some ''FAILED'' \<or> state d = Some ''TERMINATED'' \<longrightarrow>
            poll_loop c runId interval timeout startTime w
              = Some (Inl (FlowFailed (js_string (state d))), w1))
       \<and> (state d = Some ''DONE'' \<and> timeoutMs cfg = Some 0 \<longrightarrow>
            pollFlowRunUntilComplete c runId cfg w = Some (Inr d, w1))
       \<and> (\<forall>res. pollFlowRunUntilComplete c runId cfg w = Some res \<longrightarrow>
            fetches w + 1 \<le> fetches (snd res))"
proof (intro conjI allI impI)
  assume "state d = Some ''DONE''"
  with assms show "poll_loop c runId interval timeout startTime w = Some (Inr d, w1)"
    by (rule poll_loop_unfold_done)
next
  assume "state d = Some ''FAILED'' \<or> state d = Some ''TERMINATED''"
  with assms show "poll_loop c runId interval timeout startTime w
      = Some (Inl (FlowFailed (js_string (state d))), w1)"
    by (rule poll_loop_unfold_failed)
next
  assume "state d = Some ''DONE'' \<and> timeoutMs cfg = Some 0"
  with poll_loop_unfold_done [OF assms]
  show "pollFlowRunUntilComplete c runId cfg w = Some (Inr d, w1)"
    by (simp add: pollFlowRunUntilComplete_def)
next
  fix res
  assume "pollFlowRunUntilComplete c runId cfg w = Some res"
  then show "fetches w + 1 \<le> fetches (snd res)"
    unfolding pollFlowRunUntilComplete_def by (rule poll_loop_fetches_lower)
qed

theorem terminal_state_before_deadline_witness:
  "pollFlowRunUntilComplete key (Some ''run-1'') (config 10 0) (mock (always ''DONE'') 5)
     = Some (Inr (status_of ''DONE''),
             snd (getFlowRunDetails key (Some ''run-1'') (mock (always ''DONE'') 5)))
   \<and> clock (snd (getFlowRunDetails key (Some ''run-1'') (mock (always ''DONE'') 5))) - 1000 = 5
   \<and> poll_loop key (Some ''run-1'') 10 50 0 (mock (always ''FAILED'') 5)
     = Some (Inl (FlowFailed ''FAILED''),
             snd (getFlowRunDetails key (Some ''run-1'') (mock (always ''FAILED'') 5)))"
proof -
  have f: "getFlowRunDetails key (Some ''run-1'') (mock (always s) 5)
             = (Inr (status_of s), snd (getFlowRunDetails key (Some ''run-1'') (mock (always s) 5)))"
    for s
    by (simp add: getFlowRunDetails_def mock_def always_def answer_def Let_def)
  have clk: "clock (snd (getFlowRunDetails key (Some ''run-1'') (mock (always ''DONE'') 5))) = 1005"
    by (simp add: getFlowRunDetails_def mock_def always_def answer_def Let_def fetches_def)
  from terminal_state_before_deadline [OF f [of "''DONE''"], of 10 0 1000 "config 10 0"]
       terminal_state_before_deadline [OF f [of "''FAILED''"], of 10 50 0 "config 10 0"] clk
  show ?thesis
    by (simp add: status_of_def config_def)
qed

text \<open>
  Claim C4.  Every call returns, whatever the service answers: a timer lasts at least a
  millisecond, so a run that never ends is cut off by the deadline.  \<open>timeoutMs\<close> bounds
  the wait in the way the loop is built: no timer is set once the time elapsed exceeds
  \<open>timeoutMs\<close>, so the call returns at most one timer and one fetch after that moment.
  With fetches that take at most \<open>L\<close> and timers that overshoot by at most \<open>J\<close>
  milliseconds, the time elapsed at the return is at most \<open>timeoutMs\<close> plus one timer
  delay plus \<open>J\<close> plus \<open>L\<close>.
\<close>

theorem poller_terminates_wait_bounded:
  "\<exists>r w'. pollFlowRunUntilComplete c runId cfg w = Some (r, w')
     \<and> (\<exists>evs. trace w' = trace w @ evs
           \<and> (\<forall>(t, ev) \<in> set evs. is_SetTimeout ev \<longrightarrow> t - clock w \<le> timeout_of cfg))
     \<and> (\<forall>L J. (\<forall>n. run_latency w n \<le> L) \<and> (\<forall>n. timer_overshoot w n \<le> J) \<longrightarrow>
           clock w' - clock w
             \<le> max 0 (timeout_of cfg + int (timer_delay (interval_of cfg)) + int J) + int L)"
proof -
  from poll_loop_returns
  obtain r w' where
    run: "poll_loop c runId (interval_of cfg) (timeout_of cfg) (clock w) w = Some (r, w')"
    by fastforce
  from poll_loop_trace [OF run]
  obtain evs where evs: "trace w' = trace w @ evs"
      "\<forall>(t, ev) \<in> set evs. ev = GetPlRun (authToken c) (search_params c runId)
                 \<or> ev = SetTimeout (interval_of cfg) \<and> t - clock w \<le> timeout_of cfg"
    by auto
  from evs(2)
  have "\<forall>(t, ev) \<in> set evs. is_SetTimeout ev \<longrightarrow> t - clock w \<le> timeout_of cfg"
    by fastforce
  with evs(1)
  have "\<exists>evs. trace w' = trace w @ evs
           \<and> (\<forall>(t, ev) \<in> set evs. is_SetTimeout ev \<longrightarrow> t - clock w \<le> timeout_of cfg)"
    by blast
  moreover have "\<forall>L J. (\<forall>n. run_latency w n \<le> L) \<and> (\<forall>n. timer_overshoot w n \<le> J) \<longrightarrow>
           clock w' - clock w
             \<le> max 0 (timeout_of cfg + int (timer_delay (interval_of cfg)) + int J) + int L"
    using poll_loop_elapsed_upper [OF run] by simp
  ultimately show ?thesis
    using run unfolding pollFlowRunUntilComplete_def by blast
qed

theorem poller_terminates_wait_bounded_witness:
  "\<exists>w'. pollFlowRunUntilComplete key (Some ''run-1'') (config 10 50)
           (mock (always ''RUNNING'') 3) = Some (Inl PollingTimeout, w')
     \<and> 50 < clock w' - 1000 \<and> clock w' - 1000 \<le> 70"
proof -
  let ?w = "mock (always ''RUNNING'') 3"
  let ?run = "pollFlowRunUntilComplete key (Some ''run-1'') (config 10 50) ?w"
  have cfg: "interval_of (config 10 50) = 10" "timeout_of (config 10 50) = 50"
    "timer_delay 10 = 10"
    by (simp_all add: config_def interval_of_def timeout_of_def timer_delay_def)
  have w: "clock ?w = 1000" "\<forall>n. run_latency ?w n \<le> 3" "\<forall>n. timer_overshoot ?w n \<le> 0"
    by (simp_all add: mock_def)
  have obs: "observe ?w ?run = Some (Inl PollingTimeout, 55, 5)"
    by code_simp
  from poller_terminates_wait_bounded [of key "Some ''run-1''" "config 10 50" ?w]
  obtain r w' where run: "?run = Some (r, w')"
    and bound: "\<forall>L J. (\<forall>n. run_latency ?w n \<le> L) \<and> (\<forall>n. timer_overshoot ?w n \<le> J) \<longrightarrow>
             clock w' - 1000 \<le> max 0 (50 + 10 + int J) + int L"
    unfolding cfg w(1) by auto
  from bound w(2,3) have "clock w' - 1000 \<le> max 0 (50 + 10 + int 0) + int 3"
    by blast
  moreover from obs run have "r = Inl PollingTimeout" "clock w' - 1000 = 55"
    by (simp_all add: observe_def w(1))
  ultimately show ?thesis using run by simp
qed

text \<open>
  Claim C8, as the code has it.  When \<open>intervalMs \<ge> timeoutMs\<close>, with \<open>intervalMs\<close> a
  delay the timer honours (from 1 to \<open>2^31 - 1\<close> milliseconds), and the service keeps
  answering with states that end nothing, the call times out after at most three
  fetches, and after at most two when \<open>intervalMs > timeoutMs\<close>: the first comparison
  follows the first fetch, and the next one follows the second fetch, a whole interval
  later.  One fetch is not a bound.
\<close>

theorem interval_not_below_timeout:
  assumes "timeout_of cfg \<le> int (interval_of cfg)"
    and "0 < interval_of cfg"
    and "interval_of cfg \<le> 2147483647"
    and "\<forall>n. non_terminal (run_script w n)"
  shows "\<exists>w'. pollFlowRunUntilComplete c runId cfg w = Some (Inl PollingTimeout, w')
       \<and> fetches w' \<le> fetches w + 3
       \<and> (timeout_of cfg < int (interval_of cfg) \<longrightarrow> fetches w' \<le> fetches w + 2)"
proof -
  let ?i = "int (interval_of cfg)"
  have delay: "timer_delay (interval_of cfg) = interval_of cfg"
    using assms(2,3) by (rule timer_delay_in_range)
  from poll_loop_returns
  obtain r w' where
    run: "poll_loop c runId (interval_of cfg) (timeout_of cfg) (clock w) w = Some (r, w')"
    by fastforce
  from poll_loop_never_terminal [OF run assms(4)] have r: "r = Inl PollingTimeout" by simp
  have bound: "fetches w' \<le> fetches w + nat (timeout_of cfg div ?i + 1) + 1"
    using poll_loop_fetches_upper [OF run] delay by simp
  have "timeout_of cfg div ?i \<le> ?i div ?i"
    using assms(1,2) by (intro zdiv_mono1) auto
  then have le1: "timeout_of cfg div ?i \<le> 1" using assms(2) by simp
  have le0: "timeout_of cfg div ?i \<le> 0" if "timeout_of cfg < ?i"
  proof -
    have "timeout_of cfg div ?i \<le> (?i - 1) div ?i"
      using that assms(2) by (intro zdiv_mono1) auto
    also have "(?i - 1) div ?i = 0"
      using assms(2) by (simp add: div_pos_pos_trivial)
    finally show ?thesis .
  qed
  from bound le1 have "fetches w' \<le> fetches w + 3" by linarith
  moreover from bound le0
  have "timeout_of cfg < ?i \<longrightarrow> fetches w' \<le> fetches w + 2" by fastforce
  ultimately show ?thesis
    using run r unfolding pollFlowRunUntilComplete_def by blast
qed

theorem interval_not_below_timeout_witness:
  "\<exists>w'. pollFlowRunUntilComplete key (Some ''run-1'') (config 20 10)
           (mock (always ''RUNNING'') 0) = Some (Inl PollingTimeout, w')
     \<and> fetches w' \<le> 2"
proof -
  let ?w = "mock (always ''RUNNING'') 0"
  have cfg: "interval_of (config 20 10) = 20" "timeout_of (config 20 10) = 10"
    by (simp_all add: config_def interval_of_def timeout_of_def)
  have w: "fetches ?w = 0" "\<forall>n. non_terminal (run_script ?w n)"
    by (simp_all add: mock_def fetches_def non_terminal_def always_def answer_def status_of_def)
  from interval_not_below_timeout [of "config 20 10" ?w key "Some ''run-1''"] w
  show ?thesis by (auto simp: cfg)
qed

theorem interval_not_below_timeout_counterexample:
  "observe (mock (always ''RUNNING'') 0)
     (pollFlowRunUntilComplete key (Some ''run-1'') (config 20 10) (mock (always ''RUNNING'') 0))
     = Some (Inl PollingTimeout, 20, 2)
   \<and> timeout_of (config 20 10) \<le> int (interval_of (config 20 10))
   \<and> non_terminal (always ''RUNNING'' 0)"
  by code_simp

text \<open>
  An interval the timer does not honour: with \<open>pollingIntervalMs = 2^31\<close> every timer
  lasts a millisecond.  With \<open>timeoutMs = 3\<close> a mocked service that answers within the
  millisecond is asked five times before the timeout, one millisecond apart.
\<close>

lemma timer_delay_oversized: "2147483647 < ms \<Longrightarrow> timer_delay ms = 1"
  by (simp add: timer_delay_def)

lemma oversized_interval_polls_every_millisecond:
  "observe (mock (always ''RUNNING'') 0)
     (pollFlowRunUntilComplete key (Some ''run-1'') (config 2147483648 3)
        (mock (always ''RUNNING'') 0))
     = Some (Inl PollingTimeout, 4, 5)"
  by (simp add: observe_def pollFlowRunUntilComplete_def poll_loop.simps getFlowRunDetails_def
        mock_def always_def answer_def status_of_def key_def config_def interval_of_def
        timeout_of_def setTimeout_def timer_delay_def fetches_def timers_def search_params_def
        Let_def)

text \<open>
  Claim C9, as the code has it.  With \<open>timeoutMs = 0\<close> the first fetch is made before
  any comparison, and the comparison is strict: the call times out after that one fetch
  when the fetch took at least a millisecond of the clock, and after a second fetch, one
  interval later, when the first fetch came back within the same millisecond.
\<close>

theorem zero_timeout_fetches:
  assumes "timeout_of cfg = 0"
    and "0 < interval_of cfg"
    and "\<forall>n. non_terminal (run_script w n)"
  shows "\<exists>w'. pollFlowRunUntilComplete c runId cfg w = Some (Inl PollingTimeout, w')
       \<and> fetches w' = fetches w + (if 0 < run_latency w (fetches w) then 1 else 2)"
proof -
  from getFlowRunDetails_answer [of w c runId] assms(3)
  obtain d w1 where f: "getFlowRunDetails c runId w = (Inr d, w1)"
    and d: "state d \<noteq> Some ''DONE''" "state d \<noteq> Some ''FAILED''" "state d \<noteq> Some ''TERMINATED''"
    by blast
  note e1 = getFlowRunDetails_effect [OF f]
  show ?thesis
  proof (cases "0 < run_latency w (fetches w)")
    case True
    then have "timeout_of cfg < clock w1 - clock w" using e1(1) assms(1) by simp
    from poll_loop_unfold_timeout [OF f d this] e1(2) True
    show ?thesis by (simp add: pollFlowRunUntilComplete_def)
  next
    case False
    then have "\<not> timeout_of cfg < clock w1 - clock w" using e1(1) assms(1) by simp
    note step = poll_loop_unfold_continue [OF f d this]
    let ?w2 = "setTimeout (interval_of cfg) w1"
    have "non_terminal (run_script ?w2 (fetches ?w2))"
      using assms(3) e1(6) by (simp add: setTimeout_effect)
    from getFlowRunDetails_answer [OF this, of c runId]
    obtain d' w3 where f': "getFlowRunDetails c runId ?w2 = (Inr d', w3)"
      and d': "state d' \<noteq> Some ''DONE''" "state d' \<noteq> Some ''FAILED''"
              "state d' \<noteq> Some ''TERMINATED''"
      by blast
    note e3 = getFlowRunDetails_effect [OF f']
    have "timeout_of cfg < clock w3 - clock w"
      using e3(1) e1(1) assms(1) timer_delay_pos [of "interval_of cfg"]
        setTimeout_effect(1) [of "interval_of cfg" w1]
      by simp
    from poll_loop_unfold_timeout [OF f' d' this] step e3(2) e1(2) False
    show ?thesis by (simp add: pollFlowRunUntilComplete_def setTimeout_effect)
  qed
qed

theorem zero_timeout_fetches_witness:
  "\<exists>w'. pollFlowRunUntilComplete key (Some ''run-1'') (config 10 0)
           (mock (always ''RUNNING'') 4) = Some (Inl PollingTimeout, w')
     \<and> fetches w' = 1"
proof -
  let ?w = "mock (always ''RUNNING'') 4"
  have cfg: "interval_of (config 10 0) = 10" "timeout_of (config 10 0) = 0"
    by (simp_all add: config_def interval_of_def timeout_of_def)
  have w: "fetches ?w = 0" "\<forall>n. non_terminal (run_script ?w n)" "run_latency ?w 0 = 4"
    by (simp_all add: mock_def fetches_def non_terminal_def always_def answer_def status_of_def)
  from zero_timeout_fetches [of "config 10 0" ?w key "Some ''run-1''"] w
  show ?thesis by (simp add: cfg)
qed

theorem zero_timeout_fetches_counterexample:
  "observe (mock (always ''RUNNING'') 0)
     (pollFlowRunUntilComplete key (Some ''run-1'') (config 10 0) (mock (always ''RUNNING'') 0))
     = Some (Inl PollingTimeout, 10, 2)
   \<and> timeout_of (config 10 0) = 0
   \<and> non_terminal (always ''RUNNING'' 0)"
  by code_simp

section \<open>Claims about the fetcher, the launcher and the facade\<close>

text \<open>
  Claim C5, as the code has it.  \<open>getFlowRunDetails\<close> fails exactly when the transport
  fails, the HTTP status is not a success, or the body of a successful response cannot
  be parsed: \<open>response.json()\<close> rejects and nothing catches it.  A failure at any turn of
  the loop ends the call at once with that error, the failing fetch being the last; so
  a failure of the second fetch ends the call after two fetches.
\<close>

theorem status_fetch_error_propagates:
  "((\<exists>e. fst (getFlowRunDetails c runId w) = Inl e) \<longleftrightarrow>
      (run_script w (fetches w) = Rejected
       \<or> (\<exists>ok status body. run_script w (fetches w) = Response ok status body
             \<and> (\<not> ok \<or> body = Malformed))))
   \<and> (\<forall>e w1. getFlowRunDetails c runId w = (Inl e, w1) \<longrightarrow>
          poll_loop c runId interval timeout startTime w = Some (Inl e, w1)
          \<and> fetches w1 = fetches w + 1 \<and> timers w1 = timers w)
   \<and> (\<forall>d w1 e w3. getFlowRunDetails c runId w = (Inr d, w1)
          \<and> state d \<noteq> Some ''DONE'' \<and> state d \<noteq> Some ''FAILED''
          \<and> state d \<noteq> Some ''TERMINATED''
          \<and> \<not> timeout_of cfg < clock w1 - clock w
          \<and> getFlowRunDetails c runId (setTimeout (interval_of cfg) w1) = (Inl e, w3) \<longrightarrow>
          pollFlowRunUntilComplete c runId cfg w = Some (Inl e, w3)
          \<and> fetches w3 = fetches w + 2)"
proof (intro conjI allI impI)
  show "(\<exists>e. fst (getFlowRunDetails c runId w) = Inl e) \<longleftrightarrow>
      (run_script w (fetches w) = Rejected
       \<or> (\<exists>ok status body. run_script w (fetches w) = Response ok status body
             \<and> (\<not> ok \<or> body = Malformed)))"
    by (auto simp: getFlowRunDetails_def Let_def
             split: fetch_outcome.splits response_body.splits)
next
  fix e w1
  assume f: "getFlowRunDetails c runId w = (Inl e, w1)"
  then show "poll_loop c runId interval timeout startTime w = Some (Inl e, w1)"
    by (rule poll_loop_unfold_error)
  from getFlowRunDetails_effect(2,3) [OF f]
  show "fetches w1 = fetches w + 1" and "timers w1 = timers w" by simp_all
next
  fix d w1 e w3
  assume h: "getFlowRunDetails c runId w = (Inr d, w1)
          \<and> state d \<noteq> Some ''DONE'' \<and> state d \<noteq> Some ''FAILED''
          \<and> state d \<noteq> Some ''TERMINATED''
          \<and> \<not> timeout_of cfg < clock w1 - clock w
          \<and> getFlowRunDetails c runId (setTimeout (interval_of cfg) w1) = (Inl e, w3)"
  then have f: "getFlowRunDetails c runId w = (Inr d, w1)"
    and f': "getFlowRunDetails c runId (setTimeout (interval_of cfg) w1) = (Inl e, w3)"
    by simp_all
  from poll_loop_unfold_continue [OF f, of "timeout_of cfg" "clock w" "interval_of cfg"] h
       poll_loop_unfold_error [OF f']
  show "pollFlowRunUntilComplete c runId cfg w = Some (Inl e, w3)"
    by (simp add: pollFlowRunUntilComplete_def)
  from getFlowRunDetails_effect(2) [OF f] getFlowRunDetails_effect(2) [OF f']
  show "fetches w3 = fetches w + 2" by (simp add: setTimeout_effect)
qed

theorem status_fetch_error_propagates_witness:
  "observe (mock (script_of [answer ''RUNNING'', Rejected, answer ''DONE'']) 0)
     (pollFlowRunUntilComplete key (Some ''run-1'') (config 10 50)
        (mock (script_of [answer ''RUNNING'', Rejected, answer ''DONE'']) 0))
     = Some (Inl TransportError, 10, 2)"
proof -
  let ?w = "mock (script_of [answer ''RUNNING'', Rejected, answer ''DONE'']) 0"
  let ?w1 = "snd (getFlowRunDetails key (Some ''run-1'') ?w)"
  let ?w3 = "snd (getFlowRunDetails key (Some ''run-1'') (setTimeout 10 ?w1))"
  have cfg: "interval_of (config 10 50) = 10" "timeout_of (config 10 50) = 50"
    by (simp_all add: config_def interval_of_def timeout_of_def)
  have f: "getFlowRunDetails key (Some ''run-1'') ?w = (Inr (status_of ''RUNNING''), ?w1)"
    by (simp add: getFlowRunDetails_def mock_def script_of_def answer_def Let_def fetches_def)
  have f': "getFlowRunDetails key (Some ''run-1'') (setTimeout 10 ?w1) = (Inl TransportError, ?w3)"
    by (simp add: getFlowRunDetails_def mock_def script_of_def answer_def Let_def fetches_def
          setTimeout_def timer_delay_def)
  have clk: "clock ?w = 1000" "clock ?w1 = 1000" "clock ?w3 = 1010" "fetches ?w = 0"
    by (simp_all add: getFlowRunDetails_def mock_def script_of_def answer_def Let_def
          fetches_def timers_def setTimeout_def timer_delay_def)
  from status_fetch_error_propagates [of key "Some ''run-1''" ?w 10 50 1000 "config 10 50"]
  have "getFlowRunDetails key (Some ''run-1'') ?w = (Inr d, w1)
          \<and> state d \<noteq> Some ''DONE'' \<and> state d \<noteq> Some ''FAILED''
          \<and> state d \<noteq> Some ''TERMINATED''
          \<and> \<not> 50 < clock w1 - clock ?w
          \<and> getFlowRunDetails key (Some ''run-1'') (setTimeout 10 w1) = (Inl e, w3) \<Longrightarrow>
          pollFlowRunUntilComplete key (Some ''run-1'') (config 10 50) ?w = Some (Inl e, w3)
          \<and> fetches w3 = fetches ?w + 2" for d w1 e w3
    unfolding cfg by blast
  from this [of "status_of ''RUNNING''" ?w1 TransportError ?w3] f f' clk
  have "pollFlowRunUntilComplete key (Some ''run-1'') (config 10 50) ?w
          = Some (Inl TransportError, ?w3) \<and> fetches ?w3 = 2"
    by (simp add: status_of_def)
  with clk show ?thesis by (simp add: observe_def)
qed

theorem status_fetch_error_counterexample:
  "run_script (mock (script_of [Response True 200 Malformed]) 5) 0 = Response True 200 Malformed
   \<and> fst (getFlowRunDetails key (Some ''run-1'') (mock (script_of [Response True 200 Malformed]) 5))
       = Inl InvalidJson"
  by (simp add: getFlowRunDetails_def mock_def script_of_def Let_def fetches_def)

lemma poll_loop_launches:
  assumes "poll_loop c runId interval timeout startTime w = Some res"
  shows "launches (snd res) = launches w"
  using assms
proof (induction rule: poll_loop_induct)
  case (continue w d w1 res)
  then show ?case
    using getFlowRunDetails_effect(4) [OF continue(1)] by (simp add: setTimeout_effect)
qed (simp_all add: getFlowRunDetails_effect)

text \<open>
  Claim C6.  When the launch request cannot be completed (the transport fails, the HTTP
  status is not a success, or the body cannot be parsed) \<open>startGumloopFlow\<close> fails,
  having made that one request and no other; \<open>startAndWaitForFlow\<close> then fails with the
  same error in the same world: no status fetch is made and no timer is set.
\<close>

theorem launch_failure_aborts:
  assumes "start_script w (launches w) = Rejected
           \<or> (\<exists>ok status body. start_script w (launches w) = Response ok status body
                 \<and> (\<not> ok \<or> body = Malformed))"
  shows "\<exists>e w1. startGumloopFlow c savedItemId pipelineInputs w = (Inl e, w1)
       \<and> startAndWaitForFlow c savedItemId pipelineInputs cfg w = Some (Inl e, w1)
       \<and> (\<exists>request. trace w1 = trace w @ [(clock w, StartPipeline (authToken c) request)])
       \<and> launches w1 = launches w + 1
       \<and> fetches w1 = fetches w
       \<and> timers w1 = timers w"
proof -
  from assms have "\<exists>e. fst (startGumloopFlow c savedItemId pipelineInputs w) = Inl e"
    by (auto simp: startGumloopFlow_def Let_def split: fetch_outcome.splits response_body.splits)
  then obtain e w1 where
    s: "startGumloopFlow c savedItemId pipelineInputs w = (Inl e, w1)"
    by (cases "startGumloopFlow c savedItemId pipelineInputs w") auto
  then have "startAndWaitForFlow c savedItemId pipelineInputs cfg w = Some (Inl e, w1)"
    by (simp add: startAndWaitForFlow_def)
  with s startGumloopFlow_effect [OF s] show ?thesis by auto
qed

theorem launch_failure_aborts_witness:
  "\<exists>w1. startAndWaitForFlow key (Some ''item-1'') [(''input'', ''text'')] (config 10 50)
           (with_launch (Response False 500 Malformed) (mock (always ''DONE'') 0))
         = Some (Inl (HttpError 500), w1)
     \<and> launches w1 = 1 \<and> fetches w1 = 0 \<and> timers w1 = 0"
proof -
  let ?w = "with_launch (Response False 500 Malformed) (mock (always ''DONE'') 0)"
  have w: "start_script ?w (launches ?w) = Response False 500 Malformed"
    "launches ?w = 0" "fetches ?w = 0" "timers ?w = 0"
    by (simp_all add: with_launch_def mock_def launches_def fetches_def timers_def)
  have e: "fst (startGumloopFlow key (Some ''item-1'') [(''input'', ''text'')] ?w)
             = Inl (HttpError 500)"
    by (simp add: startGumloopFlow_def Let_def with_launch_def mock_def launches_def)
  have h: "start_script ?w (launches ?w) = Rejected
           \<or> (\<exists>ok status body. start_script ?w (launches ?w) = Response ok status body
                 \<and> (\<not> ok \<or> body = Malformed))"
    using w(1) by blast
  from launch_failure_aborts [OF h, of key "Some ''item-1''" "[(''input'', ''text'')]" "config 10 50"]
  obtain e' w1 where a:
    "startGumloopFlow key (Some ''item-1'') [(''input'', ''text'')] ?w = (Inl e', w1)"
    "startAndWaitForFlow key (Some ''item-1'') [(''input'', ''text'')] (config 10 50) ?w
       = Some (Inl e', w1)"
    "launches w1 = launches ?w + 1" "fetches w1 = fetches ?w" "timers w1 = timers ?w"
    by blast
  from a(1) e have "e' = HttpError 500" by simp
  with a w(2,3,4) show ?thesis by simp
qed

text \<open>
  Claim C7.  A call of \<open>startAndWaitForFlow\<close> that returns has made exactly one launch
  request.  When the launch succeeded, every status fetch of the call carries the query
  parameters built from the \<open>run_id\<close> of the launch response, the same for all of them;
  there is at least one such fetch; and the launch response is the \<open>startDetails\<close> of a
  successful result.
\<close>

theorem one_launch_same_run_id:
  assumes "startAndWaitForFlow c savedItemId pipelineInputs cfg w = Some (r, w')"
  shows "launches w' = launches w + 1
       \<and> (\<forall>flowStart w1. startGumloopFlow c savedItemId pipelineInputs w = (Inr flowStart, w1) \<longrightarrow>
            (\<forall>(t, ev) \<in> set (drop (length (trace w)) (trace w')). is_GetPlRun ev \<longrightarrow>
                ev = GetPlRun (authToken c) (search_params c (run_id flowStart)))
            \<and> map_of (search_params c (run_id flowStart)) ''run_id''
                = Some (js_string (run_id flowStart))
            \<and> fetches w + 1 \<le> fetches w'
            \<and> (\<forall>res. r = Inr res \<longrightarrow> startDetails res = flowStart))"
proof -
  obtain s w1 where s: "startGumloopFlow c savedItemId pipelineInputs w = (s, w1)"
    by (cases "startGumloopFlow c savedItemId pipelineInputs w")
  note es = startGumloopFlow_effect [OF s]
  show ?thesis
  proof (cases s)
    case (Inl e)
    with s assms have "w' = w1" by (simp add: startAndWaitForFlow_def)
    with es(1) s Inl show ?thesis by simp
  next
    case (Inr flowStart)
    let ?cfg = "\<lparr>pollingIntervalMs = Some (interval_of cfg), timeoutMs = Some (timeout_of cfg)\<rparr>"
    from s Inr assms obtain r2 where
      p: "pollFlowRunUntilComplete c (run_id flowStart) ?cfg w1 = Some (r2, w')"
      and r: "r = (case r2 of Inl e \<Rightarrow> Inl e
                   | Inr final \<Rightarrow> Inr \<lparr>startDetails = flowStart, finalResult = final\<rparr>)"
      by (auto simp: startAndWaitForFlow_def split: option.splits sum.splits)
    from p have run: "poll_loop c (run_id flowStart) (interval_of ?cfg) (timeout_of ?cfg)
                        (clock w1) w1 = Some (r2, w')"
      by (simp add: pollFlowRunUntilComplete_def)
    from poll_loop_trace [OF run] obtain evs where
      evs: "trace w' = trace w1 @ evs"
        "\<forall>(t, ev) \<in> set evs. ev = GetPlRun (authToken c) (search_params c (run_id flowStart))
           \<or> ev = SetTimeout (interval_of ?cfg) \<and> t - clock w1 \<le> timeout_of ?cfg"
      by auto
    have l: "launches w' = launches w + 1"
      using poll_loop_launches [OF run] es(1) by simp
    have d: "drop (length (trace w)) (trace w')
               = (clock w, StartPipeline (authToken c)
                    \<lparr>user_id = userId c, saved_item_id = savedItemId,
                     project_id = projectId c, pipeline_inputs = pipelineInputs\<rparr>) # evs"
      using evs(1) es(4) by simp
    have g: "\<forall>(t, ev) \<in> set (drop (length (trace w)) (trace w')). is_GetPlRun ev \<longrightarrow>
                ev = GetPlRun (authToken c) (search_params c (run_id flowStart))"
      unfolding d using evs(2) by fastforce
    have m: "map_of (search_params c (run_id flowStart)) ''run_id''
                = Some (js_string (run_id flowStart))"
      by (simp add: search_params_def)
    have f: "fetches w + 1 \<le> fetches w'"
      using poll_loop_fetches_lower [OF run] es(2) by simp
    have "\<forall>res. r = Inr res \<longrightarrow> startDetails res = flowStart"
      using r by (auto split: sum.splits)
    with l g m f s Inr show ?thesis by simp
  qed
qed

theorem one_launch_same_run_id_witness:
  "\<exists>r w'. startAndWaitForFlow key (Some ''item-1'') [(''input'', ''text'')] (config 10 10000)
             (mock (script_of [answer ''PENDING'', answer ''RUNNING'', answer ''DONE'']) 0)
           = Some (r, w')
     \<and> launches w' = 1
     \<and> (\<forall>(t, ev) \<in> set (trace w'). is_GetPlRun ev \<longrightarrow>
           ev = GetPlRun ''key'' [(''run_id'', ''run-1''), (''user_id'', ''user-1'')])"
proof -
  let ?w = "mock (script_of [answer ''PENDING'', answer ''RUNNING'', answer ''DONE'']) 0"
  let ?call = "startAndWaitForFlow key (Some ''item-1'') [(''input'', ''text'')]
                 (config 10 10000) ?w"
  let ?start = "\<lparr>run_id = Some ''run-1'', start_payload = []\<rparr>"
  have obs: "observe ?w ?call
               = Some (Inr \<lparr>startDetails = ?start, finalResult = status_of ''DONE''\<rparr>, 20, 3)"
    by code_simp
  then obtain r w' where call: "?call = Some (r, w')"
    by (auto simp: observe_def)
  have w: "launches ?w = 0" "trace ?w = []"
    by (simp_all add: mock_def launches_def)
  have s: "startGumloopFlow key (Some ''item-1'') [(''input'', ''text'')] ?w
             = (Inr ?start, snd (startGumloopFlow key (Some ''item-1'') [(''input'', ''text'')] ?w))"
    by (simp add: startGumloopFlow_def mock_def Let_def launches_def)
  have q: "search_params key (Some ''run-1'') = [(''run_id'', ''run-1''), (''user_id'', ''user-1'')]"
    "authToken key = ''key''"
    by (simp_all add: search_params_def key_def)
  from one_launch_same_run_id [OF call] s
  have "launches w' = launches ?w + 1"
    and "\<forall>(t, ev) \<in> set (drop (length (trace ?w)) (trace w')). is_GetPlRun ev \<longrightarrow>
           ev = GetPlRun (authToken key) (search_params key (run_id ?start))"
    by blast+
  with call w q show ?thesis by simp
qed

end
